theory Spec2Isabelle
  imports Main
begin

section \<open>Python string operations used by the converter\<close>

text \<open>
  Strings are lists of characters, the characters being the code points below 256. The
  whitespace class and the line boundaries are those of Python's \<^verbatim>\<open>str.isspace\<close> (also the
  class \<^verbatim>\<open>\s\<close> of its patterns) and \<^verbatim>\<open>str.splitlines\<close> on these code points. The case mapping
  is used in one comparison only, with \<^verbatim>\<open>EMPLOYMENT HISTORY\<close>, and maps the letters a to z.
  \<^verbatim>\<open>str.upper\<close> changes further code points below 256, but none of them to text that occurs
  in \<^verbatim>\<open>EMPLOYMENT HISTORY\<close> (the sharp s becomes SS, the others stay outside the unaccented
  letters), so the comparison comes out the same.
\<close>

definition isspace :: "char \<Rightarrow> bool" where
  "isspace c = (c \<in> set [CHR 0x09, CHR 0x0A, CHR 0x0B, CHR 0x0C, CHR 0x0D,
                          CHR 0x1C, CHR 0x1D, CHR 0x1E, CHR 0x1F, CHR 0x20,
                          CHR 0x85, CHR 0xA0])"

definition lstrip :: "string \<Rightarrow> string" where
  "lstrip s = dropWhile isspace s"

definition rstrip :: "string \<Rightarrow> string" where
  "rstrip s = rev (dropWhile isspace (rev s))"

definition strip :: "string \<Rightarrow> string" where
  \<comment> \<open>\<^verbatim>\<open>s.strip()\<close>\<close>
  "strip s = rstrip (lstrip s)"

definition strip_char :: "char \<Rightarrow> string \<Rightarrow> string" where
  \<comment> \<open>\<^verbatim>\<open>s.strip("|")\<close>: the given character is removed from both ends\<close>
  "strip_char d s = rev (dropWhile (\<lambda>c. c = d) (rev (dropWhile (\<lambda>c. c = d) s)))"

definition startswith :: "string \<Rightarrow> string \<Rightarrow> bool" where
  "startswith s p = (take (length p) s = p)"

fun split :: "char \<Rightarrow> string \<Rightarrow> string list" where
  \<comment> \<open>\<^verbatim>\<open>s.split("|")\<close>: one field more than there are separators\<close>
  "split d [] = [[]]"
| "split d (c # cs) =
     (if c = d then [] # split d cs
      else (case split d cs of [] \<Rightarrow> [[c]] | w # ws \<Rightarrow> (c # w) # ws))"

definition to_upper :: "char \<Rightarrow> char" where
  "to_upper c =
     (case map_of (zip ''abcdefghijklmnopqrstuvwxyz'' ''ABCDEFGHIJKLMNOPQRSTUVWXYZ'') c of
        None \<Rightarrow> c | Some u \<Rightarrow> u)"

definition upper :: "string \<Rightarrow> string" where
  "upper s = map to_upper s"

definition is_line_boundary :: "char \<Rightarrow> bool" where
  "is_line_boundary c = (c \<in> set [CHR 0x0A, CHR 0x0B, CHR 0x0C, CHR 0x0D,
                                   CHR 0x1C, CHR 0x1D, CHR 0x1E, CHR 0x85])"

text \<open>
  \<^verbatim>\<open>s.splitlines()\<close>: \<open>cur\<close> is the line being read. A carriage return directly followed
  by a line feed is one boundary, and a final boundary opens no further line.
\<close>

fun split_lines :: "string \<Rightarrow> string \<Rightarrow> string list" where
  "split_lines cur [] = (if cur = [] then [] else [cur])"
| "split_lines cur [c] = (if is_line_boundary c then [cur] else [cur @ [c]])"
| "split_lines cur (c # c' # cs) =
     (if c = CHR 0x0D \<and> c' = CHR 0x0A then cur # split_lines [] cs
      else if is_line_boundary c then cur # split_lines [] (c' # cs)
      else split_lines (cur @ [c]) (c' # cs))"

definition splitlines :: "string \<Rightarrow> string list" where
  "splitlines s = split_lines [] s"

fun join :: "string \<Rightarrow> string list \<Rightarrow> string" where
  \<comment> \<open>\<^verbatim>\<open>sep.join(parts)\<close>\<close>
  "join sep [] = []"
| "join sep [p] = p"
| "join sep (p # q # ps) = p @ sep @ join sep (q # ps)"

section \<open>Inline spans: \<^verbatim>\<open>insert_markdown_text\<close>\<close>

text \<open>
  A paragraph receives runs (plain, bold or italic text) and hyperlinks; every run uses the
  one fixed font, which is not recorded. The four kinds of content are the spans.
\<close>

datatype span = PlainText string | Bold string | Italic string | Link string string

text \<open>
  The pattern is
  \<^verbatim>\<open>(\*\*(?P<bold>.+?)\*\*|\*(?P<italic>.+?)\*|\[(?P<link_text>[^\]]+)\]\((?P<link_url>[^)]+)\))\<close>.
  \<open>lazy_until d s\<close> is the lazy group \<^verbatim>\<open>.+?\<close> followed by the literal \<open>d\<close>: at least one
  character, none of them a newline, and the first place where \<open>d\<close> follows. It returns the
  group and the text after \<open>d\<close>.
\<close>

fun lazy_until :: "string \<Rightarrow> string \<Rightarrow> (string \<times> string) option" where
  "lazy_until d [] = None"
| "lazy_until d (c # cs) =
     (if c = CHR 0x0A then None
      else if startswith cs d then Some ([c], drop (length d) cs)
      else (case lazy_until d cs of
              None \<Rightarrow> None
            | Some (t, r) \<Rightarrow> Some (c # t, r)))"

definition match_bold :: "string \<Rightarrow> (span \<times> string) option" where
  "match_bold s =
     (if startswith s ''**'' then
        (case lazy_until ''**'' (drop 2 s) of
           None \<Rightarrow> None
         | Some (t, r) \<Rightarrow> Some (Bold t, r))
      else None)"

definition match_italic :: "string \<Rightarrow> (span \<times> string) option" where
  "match_italic s =
     (if startswith s ''*'' then
        (case lazy_until ''*'' (drop 1 s) of
           None \<Rightarrow> None
         | Some (t, r) \<Rightarrow> Some (Italic t, r))
      else None)"

text \<open>
  In the link alternative both groups are greedy negated classes, so each takes the whole
  run up to the first closing character, and that character must be there.
\<close>

definition match_link :: "string \<Rightarrow> (span \<times> string) option" where
  "match_link s =
     (if startswith s ''['' then
        (let r0 = drop 1 s;
             t = takeWhile (\<lambda>c. c \<noteq> CHR '']'') r0;
             r1 = dropWhile (\<lambda>c. c \<noteq> CHR '']'') r0
         in if t = [] \<or> \<not> startswith r1 '']('' then None
            else
              (let r2 = drop 2 r1;
                   u = takeWhile (\<lambda>c. c \<noteq> CHR '')'') r2;
                   r3 = dropWhile (\<lambda>c. c \<noteq> CHR '')'') r2
               in if u = [] \<or> \<not> startswith r3 '')'' then None
                  else Some (Link t u, drop 1 r3)))
      else None)"

definition match_at :: "string \<Rightarrow> (span \<times> string) option" where
  \<comment> \<open>the alternatives in their order, tried at the start of the given text\<close>
  "match_at s =
     (case match_bold s of
        Some m \<Rightarrow> Some m
      | None \<Rightarrow>
          (case match_italic s of
             Some m \<Rightarrow> Some m
           | None \<Rightarrow> match_link s))"

definition plain_run :: "string \<Rightarrow> span list" where
  \<comment> \<open>the run for the text between two matches, added only when there is some\<close>
  "plain_run t = (if t = [] then [] else [PlainText t])"

text \<open>The source text of a span: what the pattern consumed for it.\<close>

fun span_markup :: "span \<Rightarrow> string" where
  "span_markup (PlainText t) = t"
| "span_markup (Bold t) = ''**'' @ t @ ''**''"
| "span_markup (Italic t) = ''*'' @ t @ ''*''"
| "span_markup (Link t u) = ''['' @ t @ '']('' @ u @ '')''"

lemma lazy_until_source:
  "lazy_until d s = Some (t, r) \<Longrightarrow> s = t @ d @ r \<and> t \<noteq> []"
proof (induction s arbitrary: t r)
  case Nil
  then show ?case by simp
next
  case (Cons c cs)
  show ?case
  proof (cases "c = CHR 0x0A")
    case True
    with Cons.prems show ?thesis by simp
  next
    case nl: False
    show ?thesis
    proof (cases "startswith cs d")
      case True
      then have "cs = d @ drop (length d) cs"
        by (metis append_take_drop_id startswith_def)
      with Cons.prems nl True show ?thesis by auto
    next
      case False
      with Cons.prems nl obtain t' where
        "lazy_until d cs = Some (t', r)" and "t = c # t'"
        by (auto split: option.splits)
      with Cons.IH show ?thesis by auto
    qed
  qed
qed

lemma startswith_source: "startswith s p \<Longrightarrow> s = p @ drop (length p) s"
  by (metis append_take_drop_id startswith_def)

lemma match_bold_source:
  assumes "match_bold s = Some (sp, r)"
  shows "s = span_markup sp @ r \<and> span_markup sp \<noteq> []"
proof -
  from assms have sw: "startswith s ''**''"
    by (auto simp: match_bold_def split: if_splits)
  with assms obtain t where
    l: "lazy_until ''**'' (drop 2 s) = Some (t, r)" and sp: "sp = Bold t"
    by (auto simp: match_bold_def split: option.splits)
  from startswith_source [OF sw] have "s = ''**'' @ drop 2 s"
    by (simp add: numeral_2_eq_2)
  moreover from lazy_until_source [OF l] have "drop 2 s = t @ ''**'' @ r" by simp
  ultimately have "s = ''**'' @ t @ ''**'' @ r" by simp
  with sp show ?thesis by simp
qed

lemma match_italic_source:
  assumes "match_italic s = Some (sp, r)"
  shows "s = span_markup sp @ r \<and> span_markup sp \<noteq> []"
proof -
  from assms have sw: "startswith s ''*''"
    by (auto simp: match_italic_def split: if_splits)
  with assms obtain t where
    l: "lazy_until ''*'' (drop 1 s) = Some (t, r)" and sp: "sp = Italic t"
    by (auto simp: match_italic_def split: option.splits)
  from startswith_source [OF sw] have "s = ''*'' @ drop 1 s" by simp
  moreover from lazy_until_source [OF l] have "drop 1 s = t @ ''*'' @ r" by simp
  ultimately have "s = ''*'' @ t @ ''*'' @ r" by simp
  with sp show ?thesis by simp
qed

lemma match_link_source:
  assumes "match_link s = Some (sp, r)"
  shows "s = span_markup sp @ r \<and> span_markup sp \<noteq> []"
proof -
  define r0 where "r0 = drop 1 s"
  define t where "t = takeWhile (\<lambda>c. c \<noteq> CHR '']'') r0"
  define r1 where "r1 = dropWhile (\<lambda>c. c \<noteq> CHR '']'') r0"
  define r2 where "r2 = drop 2 r1"
  define u where "u = takeWhile (\<lambda>c. c \<noteq> CHR '')'') r2"
  define r3 where "r3 = dropWhile (\<lambda>c. c \<noteq> CHR '')'') r2"
  from assms have s0: "startswith s ''[''"
    by (auto simp: match_link_def split: if_splits)
  from assms s0 have s1: "startswith r1 ''](''"
    by (auto simp: match_link_def Let_def r0_def r1_def split: if_splits)
  from assms s0 s1 have s3: "startswith r3 '')''"
    by (auto simp: match_link_def Let_def r0_def r1_def r2_def r3_def split: if_splits)
  from assms s0 s1 s3 have res: "sp = Link t u" "r = drop 1 r3"
    by (auto simp: match_link_def Let_def r0_def r1_def r2_def r3_def t_def u_def
        split: if_splits)
  have "s = ''['' @ r0"
    using startswith_source [OF s0] by (simp add: r0_def)
  moreover have "r0 = t @ r1"
    by (simp add: t_def r1_def)
  moreover have "r1 = '']('' @ r2"
    using startswith_source [OF s1] by (simp add: r2_def numeral_2_eq_2)
  moreover have "r2 = u @ r3"
    by (simp add: u_def r3_def)
  moreover have "r3 = '')'' @ r"
    using startswith_source [OF s3] by (simp add: res)
  ultimately have "s = ''['' @ t @ '']('' @ u @ '')'' @ r"
    by simp
  with res show ?thesis by simp
qed

lemma match_at_source:
  "match_at s = Some (sp, r) \<Longrightarrow> s = span_markup sp @ r \<and> span_markup sp \<noteq> []"
  unfolding match_at_def
  by (auto split: option.splits
      dest: match_bold_source match_italic_source match_link_source)

lemma match_at_shorter:
  "match_at s = Some (sp, r) \<Longrightarrow> length r < length s"
proof -
  assume "match_at s = Some (sp, r)"
  then have "s = span_markup sp @ r" and "span_markup sp \<noteq> []"
    using match_at_source by blast+
  then have "length s = length (span_markup sp) + length r" and "0 < length (span_markup sp)"
    by (metis length_append, simp)
  then show ?thesis by simp
qed

text \<open>
  \<^verbatim>\<open>finditer\<close> looks for the leftmost match from the current position; \<open>pending\<close> is the
  text passed over since the last match (\<^verbatim>\<open>markdown_text[pos:match.start()]\<close>). No match is
  empty, so the search resumes at the end of each match.
\<close>

function scan_spans :: "string \<Rightarrow> string \<Rightarrow> span list" where
  "scan_spans pending [] = plain_run pending"
| "scan_spans pending (c # cs) =
     (case match_at (c # cs) of
        None \<Rightarrow> scan_spans (pending @ [c]) cs
      | Some (sp, rest) \<Rightarrow> plain_run pending @ [sp] @ scan_spans [] rest)"
  by pat_completeness auto
termination
  by (relation "measure (\<lambda>(pending, s). length s)") (auto dest: match_at_shorter)

definition markdown_spans :: "string \<Rightarrow> span list" where
  \<comment> \<open>the runs and hyperlinks that the loop over the matches adds, in order\<close>
  "markdown_spans markdown_text = scan_spans [] markdown_text"

text \<open>
  The text of a run, and the display text of a hyperlink, is written into the XML of the
  document when it is added. The library refuses a text that holds a control character
  other than tab, line feed and carriage return, and raises \<^verbatim>\<open>ValueError\<close>. The target of a
  link is not written at that point.
\<close>

datatype error =
  IndexError | ValueError | OSError string | UnicodeDecodeError | SystemExit string error

definition xml_char :: "char \<Rightarrow> bool" where
  "xml_char c = (c \<notin> set [CHR 0x00, CHR 0x01, CHR 0x02, CHR 0x03, CHR 0x04, CHR 0x05,
                            CHR 0x06, CHR 0x07, CHR 0x08, CHR 0x0B, CHR 0x0C, CHR 0x0E,
                            CHR 0x0F, CHR 0x10, CHR 0x11, CHR 0x12, CHR 0x13, CHR 0x14,
                            CHR 0x15, CHR 0x16, CHR 0x17, CHR 0x18, CHR 0x19, CHR 0x1A,
                            CHR 0x1B, CHR 0x1C, CHR 0x1D, CHR 0x1E, CHR 0x1F])"

definition accepted :: "string \<Rightarrow> bool" where
  "accepted text = list_all xml_char text"

fun span_text :: "span \<Rightarrow> string" where
  "span_text (PlainText t) = t"
| "span_text (Bold t) = t"
| "span_text (Italic t) = t"
| "span_text (Link t u) = t"

fun add_content :: "span list \<Rightarrow> span list \<Rightarrow> error + span list" where
  \<comment> \<open>\<^verbatim>\<open>add_run\<close> and \<^verbatim>\<open>add_hyperlink\<close>, one span after the other\<close>
  "add_content runs [] = Inr runs"
| "add_content runs (sp # sps) =
     (if accepted (span_text sp) then add_content (runs @ [sp]) sps else Inl ValueError)"

definition insert_markdown_text :: "span list \<Rightarrow> string \<Rightarrow> error + span list" where
  \<comment> \<open>the runs and hyperlinks are appended to those the paragraph has\<close>
  "insert_markdown_text runs markdown_text = add_content runs (markdown_spans markdown_text)"

definition insert_formatted_text :: "span list \<Rightarrow> string \<Rightarrow> error + span list" where
  "insert_formatted_text runs text = insert_markdown_text runs text"

section \<open>The document under construction\<close>

text \<open>
  The document is the sequence of its block nodes in order. A paragraph records its style
  name (\<open>None\<close> when the source gives none), its alignment, its runs and hyperlinks, and the
  keep-with-next flag, \<open>False\<close> until the source sets it. A horizontal line is the empty
  paragraph with a bottom border that \<^verbatim>\<open>add_horizontal_line\<close> builds.
\<close>

datatype alignment = CENTER

record para =
  p_style :: "string option"
  p_alignment :: "alignment option"
  p_runs :: "span list"
  p_keep_with_next :: bool

type_synonym rgb = "nat \<times> nat \<times> nat"

text \<open>
  A table cell holds the content of its one paragraph, each item with the colour set on it,
  and the shading elements appended to the cell.
\<close>

record cell =
  c_runs :: "(span \<times> rgb option) list"
  c_shd :: "string list"

record table =
  t_style :: string
  t_cols :: nat
  t_rows :: "cell list list"

datatype block = Paragraph para | HorizontalLine | Table table

definition add_horizontal_line :: "block list \<Rightarrow> block list" where
  "add_horizontal_line doc = doc @ [HorizontalLine]"

definition formatted_paragraph ::
  "string option \<Rightarrow> alignment option \<Rightarrow> string \<Rightarrow> error + para" where
  \<comment> \<open>a new paragraph of the given style and alignment, then \<^verbatim>\<open>insert_formatted_text\<close> on it\<close>
  "formatted_paragraph style al text =
     (case insert_formatted_text [] text of
        Inl e \<Rightarrow> Inl e
      | Inr runs \<Rightarrow>
          Inr \<lparr>p_style = style, p_alignment = al, p_runs = runs, p_keep_with_next = False\<rparr>)"

section \<open>Headings: \<^verbatim>\<open>try_process_heading\<close>\<close>

text \<open>
  The pattern is \<^verbatim>\<open>^(#{1,6})\s+(.*)$\<close>. The marker group cannot stop before the last
  leading \<^verbatim>\<open>#\<close>, since whitespace must follow it; the dot matches no newline, and the end
  anchor also holds just before a final newline. The heading text is stripped, so the final
  newline never shows in it.
\<close>

definition heading_match :: "string \<Rightarrow> (nat \<times> string) option" where
  "heading_match line =
     (let n = length (takeWhile (\<lambda>c. c = CHR ''#'') line);
          rest = dropWhile (\<lambda>c. c = CHR ''#'') line;
          t = dropWhile isspace rest;
          body = (if t \<noteq> [] \<and> last t = CHR 0x0A then butlast t else t)
      in if 1 \<le> n \<and> n \<le> 6 \<and> rest \<noteq> [] \<and> isspace (hd rest) \<and> CHR 0x0A \<notin> set body
         then Some (n, strip body)
         else None)"

definition heading_style :: "nat \<Rightarrow> string" where
  "heading_style level =
     (if level = 1 then ''Heading1''
      else if level = 2 then ''Heading2''
      else if level = 3 then ''Heading3''
      else ''Normal'')"

text \<open>
  The result \<open>None\<close> is the source's \<^verbatim>\<open>(False, None, None)\<close>, and \<open>Some (level, text)\<close> its
  \<^verbatim>\<open>(True, level, text)\<close>; the document comes back with the heading paragraph added.
\<close>

definition try_process_heading ::
  "block list \<Rightarrow> string \<Rightarrow> bool \<Rightarrow> error + block list \<times> (nat \<times> string) option" where
  "try_process_heading doc line header_block =
     (case heading_match line of
        Some (level, text) \<Rightarrow>
          (case formatted_paragraph (Some (heading_style level))
                  (if header_block then Some CENTER else None) text of
             Inl e \<Rightarrow> Inl e
           | Inr p \<Rightarrow> Inr (doc @ [Paragraph p], Some (level, text)))
      | None \<Rightarrow> Inr (doc, None))"

section \<open>Job blocks: \<^verbatim>\<open>add_job_block_to_doc\<close>\<close>

fun job_block_paragraphs :: "string list \<Rightarrow> error + para list" where
  "job_block_paragraphs [] = Inr []"
| "job_block_paragraphs (raw # ls) =
     (let line = strip raw
      in if line = [] then job_block_paragraphs ls
         else
           (case (if startswith line ''- ''
                  then formatted_paragraph (Some ''List Bullet'') None (strip (drop 2 line))
                  else formatted_paragraph None None line) of
              Inl e \<Rightarrow> Inl e
            | Inr p \<Rightarrow>
                (case job_block_paragraphs ls of
                   Inl e \<Rightarrow> Inl e
                 | Inr ps \<Rightarrow> Inr (p # ps))))"

definition keep_all_but_last :: "para list \<Rightarrow> para list" where
  \<comment> \<open>\<^verbatim>\<open>for p in paragraphs[:-1]: p.paragraph_format.keep_with_next = True\<close>\<close>
  "keep_all_but_last ps =
     map (\<lambda>p. p\<lparr>p_keep_with_next := True\<rparr>) (butlast ps) @ drop (length ps - 1) ps"

definition add_job_block_to_doc :: "block list \<Rightarrow> string list \<Rightarrow> error + block list" where
  "add_job_block_to_doc doc block_lines =
     (case job_block_paragraphs block_lines of
        Inl e \<Rightarrow> Inl e
      | Inr ps \<Rightarrow> Inr (doc @ map Paragraph (keep_all_but_last ps)))"

section \<open>Tables: \<^verbatim>\<open>add_table_to_doc\<close>\<close>

definition row_cells_text :: "string \<Rightarrow> string list" where
  \<comment> \<open>\<^verbatim>\<open>[cell.strip() for cell in line.strip("|").split("|")]\<close>\<close>
  "row_cells_text line = map strip (split (CHR ''|'') (strip_char (CHR ''|'') line))"

definition empty_cell :: cell where
  "empty_cell = \<lparr>c_runs = [], c_shd = []\<rparr>"

definition set_cell_background :: "cell \<Rightarrow> string \<Rightarrow> cell" where
  "set_cell_background c color_hex = c\<lparr>c_shd := c_shd c @ [color_hex]\<rparr>"

definition set_run_color :: "rgb \<Rightarrow> cell \<Rightarrow> cell" where
  \<comment> \<open>the colour goes on the runs of the cell's paragraph; a hyperlink is not one of them\<close>
  "set_run_color col c =
     c\<lparr>c_runs := map (\<lambda>(sp, old). case sp of Link t u \<Rightarrow> (sp, old) | _ \<Rightarrow> (sp, Some col))
                     (c_runs c)\<rparr>"

text \<open>
  The body of both cell loops. Setting the text of the paragraph to the empty string
  clears the paragraph and leaves one run without text in it; the formatted text comes
  after that run. Then the cell is shaded and every run is coloured.
\<close>

definition write_cell :: "string \<Rightarrow> rgb \<Rightarrow> cell \<Rightarrow> string \<Rightarrow> error + cell" where
  "write_cell color_hex col c text =
     (case insert_formatted_text [PlainText []] text of
        Inl e \<Rightarrow> Inl e
      | Inr runs \<Rightarrow>
          Inr (set_run_color col
                 (set_cell_background (c\<lparr>c_runs := map (\<lambda>sp. (sp, None)) runs\<rparr>) color_hex)))"

text \<open>
  \<^verbatim>\<open>for j, text in enumerate(cells): ... row_cells[j] ...\<close>: the row has as many cells as
  the table has columns, and an index beyond them raises.
\<close>

fun fill_row :: "string \<Rightarrow> rgb \<Rightarrow> cell list \<Rightarrow> nat \<Rightarrow> string list \<Rightarrow> error + cell list" where
  "fill_row color_hex col row j [] = Inr row"
| "fill_row color_hex col row j (text # texts) =
     (if j < length row then
        (case write_cell color_hex col (row ! j) text of
           Inl e \<Rightarrow> Inl e
         | Inr c \<Rightarrow> fill_row color_hex col (row[j := c]) (Suc j) texts)
      else Inl IndexError)"

fun fill_data_rows :: "nat \<Rightarrow> string list \<Rightarrow> error + cell list list" where
  "fill_data_rows cols [] = Inr []"
| "fill_data_rows cols (line # ls) =
     (case fill_row ''FFFACD'' (0, 0, 0) (replicate cols empty_cell) 0 (row_cells_text line) of
        Inl e \<Rightarrow> Inl e
      | Inr row \<Rightarrow>
          (case fill_data_rows cols ls of
             Inl e \<Rightarrow> Inl e
           | Inr rows \<Rightarrow> Inr (row # rows)))"

definition add_table_to_doc :: "block list \<Rightarrow> string list \<Rightarrow> error + block list" where
  "add_table_to_doc doc table_lines =
     (if length table_lines < 2 then Inr doc
      else
        (let header_cells_text = row_cells_text (table_lines ! 0);
             data_lines = drop 2 table_lines;
             cols = length header_cells_text
         in case fill_row ''C6EFCE'' (0x00, 0x61, 0x00) (replicate cols empty_cell) 0
                   header_cells_text of
              Inl e \<Rightarrow> Inl e
            | Inr hdr_cells \<Rightarrow>
                (case fill_data_rows cols data_lines of
                   Inl e \<Rightarrow> Inl e
                 | Inr data_rows \<Rightarrow>
                     Inr (doc @ [Table \<lparr>t_style = ''Table Grid'', t_cols = cols,
                                        t_rows = hdr_cells # data_rows\<rparr>]))))"

section \<open>The conversion: \<^verbatim>\<open>convert_md_to_docx\<close>\<close>

subsection \<open>The top block\<close>

definition is_rule :: "string \<Rightarrow> bool" where
  "is_rule line = (strip line = ''---'')"

definition header_block_line :: "block list \<Rightarrow> string \<Rightarrow> error + block list" where
  \<comment> \<open>the body of the loop over \<^verbatim>\<open>header_block_lines\<close>\<close>
  "header_block_line doc line =
     (let stripped = strip line
      in if stripped = [] then Inr doc
         else
           (case try_process_heading doc stripped True of
              Inl e \<Rightarrow> Inl e
            | Inr (doc', Some h) \<Rightarrow> Inr doc'
            | Inr (doc', None) \<Rightarrow>
                (case formatted_paragraph None (Some CENTER) stripped of
                   Inl e \<Rightarrow> Inl e
                 | Inr p \<Rightarrow> Inr (doc' @ [Paragraph p]))))"

fun header_block :: "block list \<Rightarrow> string list \<Rightarrow> error + block list" where
  "header_block doc [] = Inr doc"
| "header_block doc (line # ls) =
     (case header_block_line doc line of
        Inl e \<Rightarrow> Inl e
      | Inr doc' \<Rightarrow> header_block doc' ls)"

subsection \<open>The remaining content\<close>

record state =
  doc :: "block list"
  in_employment :: bool
  current_job_block :: "string list"
  table_lines :: "string list"

definition flush_job_block :: "state \<Rightarrow> error + state" where
  \<comment> \<open>\<^verbatim>\<open>if in_employment and current_job_block: add_job_block_to_doc(...); current_job_block = []\<close>\<close>
  "flush_job_block st =
     (if in_employment st \<and> current_job_block st \<noteq> [] then
        (case add_job_block_to_doc (doc st) (current_job_block st) of
           Inl e \<Rightarrow> Inl e
         | Inr doc' \<Rightarrow> Inr (st\<lparr>doc := doc', current_job_block := []\<rparr>))
      else Inr st)"

definition flush_table :: "state \<Rightarrow> string list \<Rightarrow> error + state" where
  \<comment> \<open>\<^verbatim>\<open>add_table_to_doc(doc, table_lines); table_lines = []\<close>\<close>
  "flush_table st lines =
     (case add_table_to_doc (doc st) lines of
        Inl e \<Rightarrow> Inl e
      | Inr doc' \<Rightarrow> Inr (st\<lparr>doc := doc', table_lines := []\<rparr>))"

text \<open>
  One turn of the main loop on \<open>line\<close>, which is \<^verbatim>\<open>lines[i]\<close>; \<open>next_line\<close> is
  \<^verbatim>\<open>lines[i+1]\<close>, or \<open>None\<close> when \<open>line\<close> is the last one.
\<close>

definition step :: "state \<Rightarrow> string \<Rightarrow> string option \<Rightarrow> error + state" where
  "step st line next_line =
     (let stripped = strip line
      in if stripped = ''---'' then
           (case flush_job_block st of
              Inl e \<Rightarrow> Inl e
            | Inr st1 \<Rightarrow> Inr (st1\<lparr>doc := add_horizontal_line (doc st1)\<rparr>))
         else
           (case try_process_heading (doc st) stripped False of
              Inl e \<Rightarrow> Inl e
            | Inr (doc', Some (level, heading_text)) \<Rightarrow>
                (case flush_job_block (st\<lparr>doc := doc'\<rparr>) of
                   Inl e \<Rightarrow> Inl e
                 | Inr st1 \<Rightarrow>
                     Inr (st1\<lparr>in_employment :=
                              (level = 2 \<and> upper heading_text = ''EMPLOYMENT HISTORY'')\<rparr>))
            | Inr (doc', None) \<Rightarrow>
                if startswith stripped ''|'' then
                  (let lines = table_lines st @ [line]
                   in case next_line of
                        Some n \<Rightarrow>
                          if \<not> startswith (strip n) ''|'' then flush_table st lines
                          else Inr (st\<lparr>table_lines := lines\<rparr>)
                      | None \<Rightarrow> flush_table st lines)
                else if in_employment st then
                  Inr (st\<lparr>current_job_block := current_job_block st @ [line]\<rparr>)
                else
                  (case (if startswith stripped ''- ''
                         then formatted_paragraph (Some ''List Bullet'') None
                                (strip (drop 2 stripped))
                         else formatted_paragraph None None line) of
                     Inl e \<Rightarrow> Inl e
                   | Inr p \<Rightarrow> Inr (st\<lparr>doc := doc st @ [Paragraph p]\<rparr>))))"

fun main_loop :: "state \<Rightarrow> string list \<Rightarrow> error + state" where
  "main_loop st [] = Inr st"
| "main_loop st (line # rest) =
     (case step st line (case rest of [] \<Rightarrow> None | n # ns \<Rightarrow> Some n) of
        Inl e \<Rightarrow> Inl e
      | Inr st' \<Rightarrow> main_loop st' rest)"

definition final_flush :: "state \<Rightarrow> error + block list" where
  \<comment> \<open>after the loop: any remaining job block, then any remaining table\<close>
  "final_flush st =
     (case (if current_job_block st \<noteq> []
            then add_job_block_to_doc (doc st) (current_job_block st)
            else Inr (doc st)) of
        Inl e \<Rightarrow> Inl e
      | Inr doc1 \<Rightarrow>
          if table_lines st \<noteq> [] then add_table_to_doc doc1 (table_lines st) else Inr doc1)"

text \<open>
  The body of the document from the lines of the text: the top block up to the first
  horizontal rule, the rules that follow it, then the main loop and the final flush.
\<close>

definition body_lines :: "string list \<Rightarrow> string list" where
  \<comment> \<open>the lines the main loop starts at\<close>
  "body_lines lines = dropWhile is_rule (dropWhile (\<lambda>l. \<not> is_rule l) lines)"

definition render_body :: "string list \<Rightarrow> error + block list" where
  "render_body lines =
     (let header_block_lines = takeWhile (\<lambda>l. \<not> is_rule l) lines;
          rest = dropWhile (\<lambda>l. \<not> is_rule l) lines
      in case header_block [] header_block_lines of
           Inl e \<Rightarrow> Inl e
         | Inr doc1 \<Rightarrow>
             (let doc2 = foldl (\<lambda>d l. add_horizontal_line d) doc1 (takeWhile is_rule rest)
              in case main_loop \<lparr>doc = doc2, in_employment = False,
                                 current_job_block = [], table_lines = []\<rparr>
                        (body_lines lines) of
                   Inl e \<Rightarrow> Inl e
                 | Inr st \<Rightarrow> final_flush st))"

subsection \<open>From the text to the document\<close>

text \<open>
  The page geometry and the default style are the same for every document and are left
  out; the document is its page header paragraph and its body.
\<close>

record document =
  d_header :: para
  d_body :: "block list"

definition strip_fences :: "string list \<Rightarrow> string list" where
  \<comment> \<open>the code fence markers on the first and on the last line are removed\<close>
  "strip_fences lines =
     (let lines1 = (if lines \<noteq> [] \<and> strip (hd lines) = ''```markdown'' then tl lines else lines)
      in if lines1 \<noteq> [] \<and> strip (last lines1) = ''```'' then butlast lines1 else lines1)"

definition text_lines :: "string \<Rightarrow> string list" where
  \<comment> \<open>the lines the conversion walks over: split, fences off, joined again, split again\<close>
  "text_lines md_text = splitlines (join [CHR 0x0A] (strip_fences (splitlines md_text)))"

text \<open>
  What the conversion builds between reading its two inputs and saving the document: the
  page header paragraph from the header text, then the body from the markup text.
\<close>

definition render :: "string \<Rightarrow> string \<Rightarrow> error + document" where
  "render md_text header_text =
     (case insert_markdown_text [] header_text of
        Inl e \<Rightarrow> Inl e
      | Inr runs \<Rightarrow>
          (case render_body (text_lines md_text) of
             Inl e \<Rightarrow> Inl e
           | Inr body \<Rightarrow>
               Inr \<lparr>d_header = \<lparr>p_style = None, p_alignment = Some CENTER, p_runs = runs,
                                 p_keep_with_next = False\<rparr>,
                    d_body = body\<rparr>))"

subsection \<open>Files\<close>






section \<open>Properties of the inline span formatter\<close>






lemma plain_run_source: "concat (map span_markup (plain_run t)) = t"
  by (simp add: plain_run_def)

lemma scan_spans_source: "concat (map span_markup (scan_spans pending s)) = pending @ s"
proof (induction pending s rule: scan_spans.induct)
  case (1 pending)
  show ?case by (simp add: plain_run_source)
next
  case (2 pending c cs)
  show ?case
  proof (cases "match_at (c # cs)")
    case None
    with 2 show ?thesis by simp
  next
    case (Some m)
    obtain sp rest where m: "m = (sp, rest)" by (cases m)
    from Some m have src: "c # cs = span_markup sp @ rest"
      using match_at_source by blast
    from 2(2) [OF Some [unfolded m] refl]
    have "concat (map span_markup (scan_spans [] rest)) = rest" by simp
    moreover have "scan_spans pending (c # cs) = plain_run pending @ [sp] @ scan_spans [] rest"
      using Some m by simp
    ultimately have "concat (map span_markup (scan_spans pending (c # cs))) =
        pending @ span_markup sp @ rest"
      by (simp add: plain_run_source)
    with src show ?thesis by simp
  qed
qed



section \<open>Texts that the document library accepts\<close>

lemma span_text_in_markup: "set (span_text sp) \<subseteq> set (span_markup sp)"
  by (cases sp) auto

lemma spans_within_text:
  assumes "sp \<in> set (markdown_spans text)"
  shows "set (span_text sp) \<subseteq> set text"
proof -
  have "set (span_markup sp) \<subseteq> set (concat (map span_markup (markdown_spans text)))"
    using assms by auto
  also have "concat (map span_markup (markdown_spans text)) = text"
    by (simp add: markdown_spans_def scan_spans_source)
  finally show ?thesis
    using span_text_in_markup [of sp] by blast
qed

lemma add_content_accepted:
  "\<forall>sp\<in>set sps. accepted (span_text sp) \<Longrightarrow> add_content runs sps = Inr (runs @ sps)"
  by (induction sps arbitrary: runs) simp_all

lemma insert_accepted:
  assumes "accepted text"
  shows "insert_formatted_text runs text = Inr (runs @ markdown_spans text)"
proof -
  have "accepted (span_text sp)" if "sp \<in> set (markdown_spans text)" for sp
    using assms spans_within_text [OF that] by (auto simp: accepted_def list_all_iff)
  then show ?thesis
    by (simp add: insert_formatted_text_def insert_markdown_text_def add_content_accepted)
qed

text \<open>
  Whenever the formatter returns, what it has added to the paragraph is the sequence of
  the spans, in order.
\<close>

lemma add_content_result: "add_content runs sps = Inr rs \<Longrightarrow> rs = runs @ sps"
proof (induction sps arbitrary: runs)
  case Nil
  then show ?case by simp
next
  case (Cons sp sps)
  from Cons.prems have "add_content (runs @ [sp]) sps = Inr rs"
    by (simp split: if_splits)
  from Cons.IH [OF this] show ?case by simp
qed

lemma insert_markdown_text_result:
  "insert_markdown_text runs text = Inr rs \<Longrightarrow> rs = runs @ markdown_spans text"
  by (simp add: insert_markdown_text_def add_content_result)

lemma formatted_paragraph_accepted:
  "accepted text \<Longrightarrow>
     formatted_paragraph style al text =
       Inr \<lparr>p_style = style, p_alignment = al, p_runs = markdown_spans text,
            p_keep_with_next = False\<rparr>"
  by (simp add: formatted_paragraph_def insert_accepted)

lemma set_strip: "set (strip t) \<subseteq> set t"
proof -
  have "set (strip t) \<subseteq> set (dropWhile isspace t)"
    using set_dropWhileD [of _ isspace "rev (dropWhile isspace t)"]
    by (auto simp: strip_def rstrip_def lstrip_def)
  then show ?thesis
    using set_dropWhileD [of _ isspace t] by blast
qed

lemma accepted_strip: "accepted t \<Longrightarrow> accepted (strip t)"
  using set_strip [of t] by (auto simp: accepted_def list_all_iff)

lemma accepted_drop: "accepted t \<Longrightarrow> accepted (drop n t)"
  by (auto simp: accepted_def list_all_iff dest: in_set_dropD)

section \<open>Properties of the heading rule\<close>

lemma strip_lstrip: "strip (dropWhile isspace t) = strip t"
  by (simp add: strip_def lstrip_def)

lemma hash_not_space: "isspace c \<Longrightarrow> c \<noteq> CHR ''#''"
  by (auto simp: isspace_def)

lemma takeWhile_replicate_then:
  "c \<noteq> a \<Longrightarrow> takeWhile (\<lambda>x. x = a) (replicate n a @ c # r) = replicate n a"
  by (induction n) auto

lemma dropWhile_replicate_then:
  "c \<noteq> a \<Longrightarrow> dropWhile (\<lambda>x. x = a) (replicate n a @ c # r) = c # r"
  by (induction n) auto

lemma heading_match_markers:
  assumes n: "1 \<le> n" "n \<le> 6" and w: "w \<noteq> []" "\<forall>c\<in>set w. isspace c"
    and t: "CHR 0x0A \<notin> set t"
  shows "heading_match (replicate n (CHR ''#'') @ w @ t) = Some (n, strip t)"
proof -
  let ?hs = "replicate n (CHR ''#'')"
  let ?P = "\<lambda>c. c = CHR ''#''"
  obtain c w' where w': "w = c # w'" using w(1) by (cases w) auto
  with w(2) have c: "isspace c" "\<not> ?P c" by (auto dest: hash_not_space)
  have tk: "takeWhile ?P (?hs @ w @ t) = ?hs"
    using c w' by (simp add: takeWhile_replicate_then)
  have dr: "dropWhile ?P (?hs @ w @ t) = w @ t"
    using c w' by (simp add: dropWhile_replicate_then)
  have ws: "dropWhile isspace (w @ t) = dropWhile isspace t"
    using w(2) by (simp add: dropWhile_append2)
  have "set (dropWhile isspace t) \<subseteq> set t"
    by (auto dest: set_dropWhileD)
  with t have nl: "CHR 0x0A \<notin> set (dropWhile isspace t)" by blast
  then have lst: "dropWhile isspace t \<noteq> [] \<Longrightarrow> last (dropWhile isspace t) \<noteq> CHR 0x0A"
    by (metis last_in_set)
  show ?thesis
    unfolding heading_match_def tk dr ws Let_def
    using n c w' nl lst by (auto simp: strip_lstrip)
qed

text \<open>
  C2, as the code has it. A line of \<open>n\<close> marker characters, \<open>1 \<le> n \<le> 6\<close>, then whitespace,
  then a text that the document library accepts is a heading: the level returned is \<open>n\<close>,
  and the paragraph added for it has the style \<^verbatim>\<open>Heading1\<close>, \<^verbatim>\<open>Heading2\<close> or \<^verbatim>\<open>Heading3\<close> at the
  levels 1, 2 and 3 and the body style \<^verbatim>\<open>Normal\<close> at the levels 4, 5 and 6. The four style
  names differ. A line of the input holds no newline.
\<close>

theorem heading_level_is_marker_count:
  assumes "1 \<le> n" and "n \<le> 6" and "w \<noteq> []" and "\<forall>c\<in>set w. isspace c"
    and "CHR 0x0A \<notin> set t" and "accepted t"
  shows "try_process_heading d (replicate n (CHR ''#'') @ w @ t) hb =
           Inr (d @ [Paragraph
                       \<lparr>p_style = Some (if n = 1 then ''Heading1''
                                        else if n = 2 then ''Heading2''
                                        else if n = 3 then ''Heading3''
                                        else ''Normal''),
                        p_alignment = (if hb then Some CENTER else None),
                        p_runs = markdown_spans (strip t),
                        p_keep_with_next = False\<rparr>],
                Some (n, strip t))
         \<and> distinct [''Heading1'', ''Heading2'', ''Heading3'', ''Normal'']"
  using heading_match_markers [OF assms(1-5)] accepted_strip [OF assms(6)]
  by (simp add: try_process_heading_def heading_style_def formatted_paragraph_accepted)

text \<open>
  C2 as stated fails on a heading line whose text holds a control character: the library
  refuses the text of the run, and the call raises instead of returning a level.
\<close>

theorem heading_control_character_counterexample:
  "try_process_heading [] (''# A'' @ [CHR 0x01]) False = Inl ValueError"
  by code_simp

theorem heading_level_is_marker_count_witness:
  "try_process_heading [] (''####'' @ [CHR 0xA0] @ ''Tools '') False =
     Inr ([Paragraph \<lparr>p_style = Some ''Normal'', p_alignment = None,
                       p_runs = [PlainText ''Tools''], p_keep_with_next = False\<rparr>],
          Some (4, ''Tools''))"
proof -
  have sp: "\<forall>c\<in>set [CHR 0xA0]. isspace c" by (simp add: isspace_def)
  have st: "strip ''Tools '' = ''Tools''" by code_simp
  have ms: "markdown_spans ''Tools'' = [PlainText ''Tools'']" by code_simp
  have ac: "accepted ''Tools ''" by code_simp
  have "replicate 4 (CHR ''#'') = ''####''"
    by (simp add: numeral_eq_Suc)
  with heading_level_is_marker_count [of 4 "[CHR 0xA0]" "''Tools ''" "[]" False] sp st ms ac
  show ?thesis by simp
qed

section \<open>Properties of the job block flush\<close>

text \<open>The paragraph that the flush builds for one trimmed line that is not empty.\<close>

definition job_paragraph :: "string \<Rightarrow> para" where
  "job_paragraph line =
     (if startswith line ''- '' then
        \<lparr>p_style = Some ''List Bullet'', p_alignment = None,
         p_runs = markdown_spans (strip (drop 2 line)), p_keep_with_next = False\<rparr>
      else
        \<lparr>p_style = None, p_alignment = None,
         p_runs = markdown_spans line, p_keep_with_next = False\<rparr>)"

lemma job_block_paragraphs_map:
  "\<forall>l\<in>set block_lines. accepted l \<Longrightarrow>
     job_block_paragraphs block_lines =
       Inr (map job_paragraph (filter (\<lambda>l. l \<noteq> []) (map strip block_lines)))"
proof (induction block_lines)
  case Nil
  show ?case by simp
next
  case (Cons raw ls)
  then have a: "accepted (strip raw)" and b: "accepted (strip (drop 2 (strip raw)))"
    by (simp_all add: accepted_strip accepted_drop)
  from Cons show ?case
    by (simp add: Let_def job_paragraph_def formatted_paragraph_accepted [OF a]
        formatted_paragraph_accepted [OF b])
qed

lemma length_keep_all_but_last: "length (keep_all_but_last ps) = length ps"
  by (cases "ps = []") (auto simp: keep_all_but_last_def)

lemma nth_keep_all_but_last:
  assumes "i < length ps"
  shows "keep_all_but_last ps ! i =
           (if Suc i < length ps then (ps ! i)\<lparr>p_keep_with_next := True\<rparr> else ps ! i)"
proof (cases "Suc i < length ps")
  case True
  then have "i < length (butlast ps)" by simp
  then show ?thesis
    using True by (simp add: keep_all_but_last_def nth_append nth_butlast)
next
  case False
  with assms have i: "i = length ps - 1" by simp
  with assms show ?thesis
    using False by (simp add: keep_all_but_last_def nth_append)
qed

text \<open>
  C5, as the code has it. A flushed job block whose lines the document library accepts
  adds one node for each accumulated line that is not empty once trimmed, in order: a list
  item holding the text after the marker when the trimmed line starts with \<^verbatim>\<open>- \<close>, a plain
  paragraph of the trimmed line otherwise. Every node but the last has the keep-with-next
  flag, and the last one has not.
\<close>

theorem job_block_flush:
  assumes "\<forall>l\<in>set block_lines. accepted l"
  shows "\<exists>nodes. add_job_block_to_doc d block_lines = Inr (d @ map Paragraph nodes)
     \<and> length nodes = length (filter (\<lambda>l. l \<noteq> []) (map strip block_lines))
     \<and> (\<forall>i < length nodes.
           let line = filter (\<lambda>l. l \<noteq> []) (map strip block_lines) ! i
           in p_style (nodes ! i) = (if startswith line ''- '' then Some ''List Bullet'' else None)
            \<and> p_runs (nodes ! i) =
                markdown_spans (if startswith line ''- '' then strip (drop 2 line) else line)
            \<and> p_keep_with_next (nodes ! i) = (Suc i < length nodes))"
proof -
  let ?ls = "filter (\<lambda>l. l \<noteq> []) (map strip block_lines)"
  let ?ps = "map job_paragraph ?ls"
  let ?nodes = "keep_all_but_last ?ps"
  have a: "add_job_block_to_doc d block_lines = Inr (d @ map Paragraph ?nodes)"
    using assms by (simp add: add_job_block_to_doc_def job_block_paragraphs_map)
  have b: "length ?nodes = length ?ls"
    by (simp add: length_keep_all_but_last)
  have c: "p_style (?nodes ! i) = (if startswith (?ls ! i) ''- '' then Some ''List Bullet'' else None)
      \<and> p_runs (?nodes ! i) =
          markdown_spans (if startswith (?ls ! i) ''- '' then strip (drop 2 (?ls ! i)) else ?ls ! i)
      \<and> p_keep_with_next (?nodes ! i) = (Suc i < length ?nodes)"
    if "i < length ?nodes" for i
  proof -
    from that b have i: "i < length ?ps" by simp
    show ?thesis
      using i by (simp add: nth_keep_all_but_last length_keep_all_but_last job_paragraph_def)
  qed
  from a b c show ?thesis
    unfolding Let_def by blast
qed

text \<open>
  C5 as stated fails on a job block with a line that holds a control character: the
  library refuses the text of the run, and the flush raises.
\<close>

theorem job_block_control_character_counterexample:
  "add_job_block_to_doc [] [''Engineer'', ''- built'' @ [CHR 0x01]] = Inl ValueError"
  by code_simp

theorem job_block_flush_witness:
  "\<exists>nodes. add_job_block_to_doc [] [''Engineer'', [CHR 0xA0], [CHR 0xA0] @ ''- built x''] =
              Inr (map Paragraph nodes)
     \<and> length nodes = 2
     \<and> p_style (nodes ! 0) = None \<and> p_keep_with_next (nodes ! 0)
     \<and> p_style (nodes ! 1) = Some ''List Bullet'' \<and> \<not> p_keep_with_next (nodes ! 1)"
proof -
  let ?bl = "[''Engineer'', [CHR 0xA0], [CHR 0xA0] @ ''- built x'']"
  have ac: "\<forall>l\<in>set ?bl. accepted l" by code_simp
  have ls: "filter (\<lambda>l. l \<noteq> []) (map strip ?bl) = [''Engineer'', ''- built x'']"
    by code_simp
  from job_block_flush [OF ac, of "[]"]
  obtain nodes where
    n: "add_job_block_to_doc [] ?bl = Inr ([] @ map Paragraph nodes)"
      "length nodes = 2"
      "\<forall>i < length nodes.
           let line = [''Engineer'', ''- built x''] ! i
           in p_style (nodes ! i) = (if startswith line ''- '' then Some ''List Bullet'' else None)
            \<and> p_runs (nodes ! i) =
                markdown_spans (if startswith line ''- '' then strip (drop 2 line) else line)
            \<and> p_keep_with_next (nodes ! i) = (Suc i < length nodes)"
    unfolding ls by auto
  from n(2,3) have "p_style (nodes ! 0) = None \<and> p_keep_with_next (nodes ! 0)"
    by (simp add: Let_def startswith_def)
  moreover from n(2,3) have "p_style (nodes ! 1) = Some ''List Bullet'' \<and> \<not> p_keep_with_next (nodes ! 1)"
    by (simp add: Let_def startswith_def)
  ultimately show ?thesis using n(1,2) by auto
qed

section \<open>Properties of the main loop\<close>

lemma heading_match_not_marker:
  "s = [] \<or> hd s \<noteq> CHR ''#'' \<Longrightarrow> heading_match s = None"
  by (cases s) (auto simp: heading_match_def)

lemma startswith_pipe_hd: "startswith s ''|'' \<Longrightarrow> s \<noteq> [] \<and> hd s = CHR ''|''"
  by (cases s) (auto simp: startswith_def)

lemma table_row_not_heading: "startswith s ''|'' \<Longrightarrow> heading_match s = None"
  by (rule heading_match_not_marker) (auto dest: startswith_pipe_hd)

lemma table_row_not_rule: "startswith s ''|'' \<Longrightarrow> s \<noteq> ''---''"
  by (auto simp: startswith_def)

lemma short_block: "length ls < 2 \<Longrightarrow> add_table_to_doc d ls = Inr d"
  by (simp add: add_table_to_doc_def)

lemma rule_not_heading: "heading_match ''---'' = None"
  by (rule heading_match_not_marker) simp

lemma add_job_block_accepted:
  "\<forall>l\<in>set block_lines. accepted l \<Longrightarrow> \<exists>d'. add_job_block_to_doc d block_lines = Inr d'"
  by (simp add: add_job_block_to_doc_def job_block_paragraphs_map)

lemma step_rule:
  assumes "strip line = ''---''"
  shows "step st line nxt =
           (if in_employment st \<and> current_job_block st \<noteq> [] then
              (case add_job_block_to_doc (doc st) (current_job_block st) of
                 Inl e \<Rightarrow> Inl e
               | Inr d' \<Rightarrow> Inr (st\<lparr>doc := d' @ [HorizontalLine], current_job_block := []\<rparr>))
            else Inr (st\<lparr>doc := doc st @ [HorizontalLine]\<rparr>))"
  using assms
  by (auto simp: step_def flush_job_block_def add_horizontal_line_def Let_def split: sum.splits)

lemma step_heading:
  assumes "heading_match (strip line) = Some (level, text)" and "step st line nxt = Inr st'"
  shows "in_employment st' = (level = 2 \<and> upper text = ''EMPLOYMENT HISTORY'')"
proof -
  from assms(1) have "strip line \<noteq> ''---''"
    using rule_not_heading by auto
  with assms show ?thesis
    by (auto simp: step_def try_process_heading_def flush_job_block_def Let_def
        split: sum.splits if_splits)
qed

lemma step_plain_in_employment:
  assumes "in_employment st" and "strip line \<noteq> ''---''"
    and "heading_match (strip line) = None" and "\<not> startswith (strip line) ''|''"
  shows "step st line nxt = Inr (st\<lparr>current_job_block := current_job_block st @ [line]\<rparr>)"
  using assms by (simp add: step_def try_process_heading_def)

lemma step_keeps_flag:
  assumes "heading_match (strip line) = None" and "step st line nxt = Inr st'"
  shows "in_employment st' = in_employment st"
  using assms
  by (auto simp: step_def try_process_heading_def flush_job_block_def flush_table_def Let_def
      split: if_splits option.splits sum.splits)

text \<open>
  C9. A table block of fewer than two lines adds nothing and raises nothing. So a single
  table-row line, followed by a line that is no table row or by the end of the input,
  leaves the whole state of the loop as it was: no table, no paragraph.
\<close>

theorem short_table_block_dropped:
  "(length ls < 2 \<longrightarrow> add_table_to_doc d ls = Inr d) \<and>
   (table_lines st = [] \<and> startswith (strip line) ''|'' \<and> \<not> startswith (strip n) ''|''
      \<longrightarrow> step st line (Some n) = Inr st) \<and>
   (table_lines st = [] \<and> startswith (strip line) ''|'' \<longrightarrow> step st line None = Inr st)"
proof (intro conjI impI)
  show "add_table_to_doc d ls = Inr d" if "length ls < 2"
    using that by (rule short_block)
next
  assume a: "table_lines st = [] \<and> startswith (strip line) ''|'' \<and> \<not> startswith (strip n) ''|''"
  then have "heading_match (strip line) = None" and "strip line \<noteq> ''---''"
    by (auto dest: table_row_not_heading table_row_not_rule)
  with a show "step st line (Some n) = Inr st"
    by (simp add: step_def try_process_heading_def flush_table_def short_block)
next
  assume a: "table_lines st = [] \<and> startswith (strip line) ''|''"
  then have "heading_match (strip line) = None" and "strip line \<noteq> ''---''"
    by (auto dest: table_row_not_heading table_row_not_rule)
  with a show "step st line None = Inr st"
    by (simp add: step_def try_process_heading_def flush_table_def short_block)
qed

theorem short_table_block_dropped_witness:
  "add_table_to_doc [] [''| lonely |''] = Inr [] \<and>
   step \<lparr>doc = [], in_employment = False, current_job_block = [], table_lines = []\<rparr>
     ''| lonely |'' (Some ''text'') =
     Inr \<lparr>doc = [], in_employment = False, current_job_block = [], table_lines = []\<rparr>"
proof -
  have h: "startswith (strip ''| lonely |'') ''|'' \<and> \<not> startswith (strip ''text'') ''|''"
    by code_simp
  from short_table_block_dropped
    [of "[''| lonely |'']" "[]"
      "\<lparr>doc = [], in_employment = False, current_job_block = [], table_lines = []\<rparr>"
      "''| lonely |''" "''text''"] h
  show ?thesis by simp
qed

text \<open>
  C10, as the code has it. While the employment flag is set, a horizontal-rule line
  flushes the pending job block, when the document library accepts its lines, adds the
  horizontal line and leaves the flag set; a following line that is neither a rule nor a
  heading nor a table row is appended to the new job block; and no line other than a
  heading clears the flag.
\<close>

theorem rule_keeps_employment_state:
  assumes "in_employment st"
  shows "(strip line = ''---'' \<and> (\<forall>l\<in>set (current_job_block st). accepted l) \<longrightarrow>
            (\<exists>st' d'. add_job_block_to_doc (doc st) (current_job_block st) = Inr d'
               \<and> step st line nxt = Inr st' \<and> in_employment st'
               \<and> current_job_block st' = [] \<and> table_lines st' = table_lines st
               \<and> doc st' = (if current_job_block st \<noteq> [] then d' else doc st)
                             @ [HorizontalLine]))
       \<and> (strip line \<noteq> ''---'' \<and> heading_match (strip line) = None
            \<and> \<not> startswith (strip line) ''|'' \<longrightarrow>
            step st line nxt = Inr (st\<lparr>current_job_block := current_job_block st @ [line]\<rparr>))
       \<and> (heading_match (strip line) = None \<longrightarrow>
            (\<forall>st'. step st line nxt = Inr st' \<longrightarrow> in_employment st'))"
proof (intro conjI impI allI)
  assume a: "strip line = ''---'' \<and> (\<forall>l\<in>set (current_job_block st). accepted l)"
  then obtain d' where d': "add_job_block_to_doc (doc st) (current_job_block st) = Inr d'"
    using add_job_block_accepted by blast
  let ?st' = "st\<lparr>doc := (if current_job_block st \<noteq> [] then d' else doc st) @ [HorizontalLine],
                 current_job_block := []\<rparr>"
  from a d' assms have "step st line nxt = Inr ?st'"
    by (cases st) (auto simp: step_rule)
  with d' assms
  show "\<exists>st' d'. add_job_block_to_doc (doc st) (current_job_block st) = Inr d'
               \<and> step st line nxt = Inr st' \<and> in_employment st'
               \<and> current_job_block st' = [] \<and> table_lines st' = table_lines st
               \<and> doc st' = (if current_job_block st \<noteq> [] then d' else doc st)
                             @ [HorizontalLine]"
    by (intro exI [of _ ?st'] exI [of _ d']) simp
next
  assume "strip line \<noteq> ''---'' \<and> heading_match (strip line) = None
            \<and> \<not> startswith (strip line) ''|''"
  with assms show "step st line nxt = Inr (st\<lparr>current_job_block := current_job_block st @ [line]\<rparr>)"
    by (simp add: step_plain_in_employment)
next
  fix st'
  assume "heading_match (strip line) = None" and "step st line nxt = Inr st'"
  with assms show "in_employment st'"
    by (simp add: step_keeps_flag)
qed

text \<open>
  C10 as stated fails when a line of the pending job block holds a control character: the
  flush raises, and no horizontal line is added.
\<close>

theorem rule_flush_control_character_counterexample:
  "step \<lparr>doc = [], in_employment = True, current_job_block = [''Job A'' @ [CHR 0x01]],
         table_lines = []\<rparr> ''---'' None = Inl ValueError"
  by code_simp

theorem rule_keeps_employment_state_witness:
  "(\<exists>st'. step \<lparr>doc = [], in_employment = True, current_job_block = [''Job A''],
                 table_lines = []\<rparr> (''---'' @ [CHR 0xA0]) (Some ''Job B'') = Inr st'
          \<and> in_employment st' \<and> current_job_block st' = []
          \<and> doc st' = [Paragraph \<lparr>p_style = None, p_alignment = None,
                                   p_runs = [PlainText ''Job A''], p_keep_with_next = False\<rparr>,
                        HorizontalLine])
   \<and> step \<lparr>doc = [HorizontalLine], in_employment = True, current_job_block = [],
            table_lines = []\<rparr> ''Job B'' None =
       Inr \<lparr>doc = [HorizontalLine], in_employment = True, current_job_block = [''Job B''],
            table_lines = []\<rparr>"
proof -
  let ?st0 = "\<lparr>doc = [], in_employment = True, current_job_block = [''Job A''],
               table_lines = []\<rparr>"
  let ?st1 = "\<lparr>doc = [HorizontalLine], in_employment = True, current_job_block = [],
               table_lines = []\<rparr>"
  have r: "strip (''---'' @ [CHR 0xA0]) = ''---''" by code_simp
  have ac: "\<forall>l\<in>set (current_job_block ?st0). accepted l" by code_simp
  have j: "add_job_block_to_doc [] [''Job A''] =
      Inr [Paragraph \<lparr>p_style = None, p_alignment = None,
                      p_runs = [PlainText ''Job A''], p_keep_with_next = False\<rparr>]"
    by code_simp
  have b: "strip ''Job B'' \<noteq> ''---'' \<and> heading_match (strip ''Job B'') = None
      \<and> \<not> startswith (strip ''Job B'') ''|''"
    by code_simp
  from rule_keeps_employment_state [of ?st0 "''---'' @ [CHR 0xA0]" "Some ''Job B''"] r ac j
  have one: "\<exists>st'. step ?st0 (''---'' @ [CHR 0xA0]) (Some ''Job B'') = Inr st'
          \<and> in_employment st' \<and> current_job_block st' = []
          \<and> doc st' = [Paragraph \<lparr>p_style = None, p_alignment = None,
                                   p_runs = [PlainText ''Job A''], p_keep_with_next = False\<rparr>,
                        HorizontalLine]"
    by auto
  from rule_keeps_employment_state [of ?st1 "''Job B''" None] b
  have two: "step ?st1 ''Job B'' None =
       Inr \<lparr>doc = [HorizontalLine], in_employment = True, current_job_block = [''Job B''],
            table_lines = []\<rparr>"
    by simp
  from one two show ?thesis by blast
qed

text \<open>
  C3. The heading paragraph is added by \<^verbatim>\<open>try_process_heading\<close> before the pending job
  block is flushed, so the paragraphs of the job block come after the heading that ends
  the block. The flag itself is set by a level-2 heading whose text in upper case is
  \<^verbatim>\<open>EMPLOYMENT HISTORY\<close> and cleared by every other heading (\<open>step_heading\<close>).
\<close>

theorem heading_emitted_before_job_block_flush:
  "render_body [''---'', ''## EMPLOYMENT HISTORY'', ''Job A'', ''## EDUCATION''] =
     Inr [HorizontalLine,
          Paragraph \<lparr>p_style = Some ''Heading2'', p_alignment = None,
                     p_runs = [PlainText ''EMPLOYMENT HISTORY''], p_keep_with_next = False\<rparr>,
          Paragraph \<lparr>p_style = Some ''Heading2'', p_alignment = None,
                     p_runs = [PlainText ''EDUCATION''], p_keep_with_next = False\<rparr>,
          Paragraph \<lparr>p_style = None, p_alignment = None,
                     p_runs = [PlainText ''Job A''], p_keep_with_next = False\<rparr>]"
  by code_simp

section \<open>Blank lines\<close>

lemma strip_empty_all_space:
  assumes "strip line = []"
  shows "\<forall>c\<in>set line. isspace c"
proof -
  let ?xs = "dropWhile isspace line"
  from assms have "dropWhile isspace (rev ?xs) = []"
    by (simp add: strip_def rstrip_def lstrip_def)
  then have all: "\<forall>c\<in>set ?xs. isspace c"
    by (simp add: dropWhile_eq_Nil_conv)
  have "?xs = []"
  proof (rule ccontr)
    assume ne: "?xs \<noteq> []"
    then have "\<not> isspace (hd ?xs)" by (rule hd_dropWhile)
    moreover from ne have "hd ?xs \<in> set ?xs" by simp
    ultimately show False using all by blast
  qed
  then show ?thesis by (simp add: dropWhile_eq_Nil_conv)
qed

lemma match_at_no_opener:
  "s = [] \<or> (hd s \<noteq> CHR ''*'' \<and> hd s \<noteq> CHR ''['') \<Longrightarrow> match_at s = None"
  by (cases s)
    (auto simp: match_at_def match_bold_def match_italic_def match_link_def startswith_def)

lemma scan_spans_no_opener:
  "\<forall>c\<in>set s. c \<noteq> CHR ''*'' \<and> c \<noteq> CHR ''['' \<Longrightarrow> scan_spans pending s = plain_run (pending @ s)"
proof (induction s arbitrary: pending)
  case Nil
  show ?case by simp
next
  case (Cons c cs)
  then have "match_at (c # cs) = None"
    by (intro match_at_no_opener) simp
  with Cons show ?case by simp
qed

lemma space_no_opener: "isspace c \<Longrightarrow> c \<noteq> CHR ''*'' \<and> c \<noteq> CHR ''[''"
  by (auto simp: isspace_def)

lemma blank_line_spans: "strip line = [] \<Longrightarrow> markdown_spans line = plain_run line"
  using strip_empty_all_space [of line]
  by (simp add: markdown_spans_def scan_spans_no_opener space_no_opener)

lemma blank_line_in_job_block:
  "strip line = [] \<Longrightarrow>
     job_block_paragraphs (before @ line # after) = job_block_paragraphs (before @ after)"
  by (induction before) (simp_all add: Let_def cong: sum.case_cong)

text \<open>
  C6, as the code has it. A line that is empty once trimmed adds nothing in the top block
  and nothing when a job block is flushed. In the main loop it is appended to the job
  block while the employment flag is set; with the flag clear, and when the document
  library accepts its characters, it adds a paragraph of the body style, empty or holding
  the line's own whitespace as its one run.
\<close>

theorem blank_line_handling:
  assumes "strip line = []"
  shows "header_block_line d line = Inr d
       \<and> add_job_block_to_doc d (before @ line # after) = add_job_block_to_doc d (before @ after)
       \<and> (in_employment st \<longrightarrow>
            step st line nxt = Inr (st\<lparr>current_job_block := current_job_block st @ [line]\<rparr>))
       \<and> (\<not> in_employment st \<and> accepted line \<longrightarrow>
            step st line nxt =
              Inr (st\<lparr>doc := doc st @
                     [Paragraph \<lparr>p_style = None, p_alignment = None,
                                 p_runs = (if line = [] then [] else [PlainText line]),
                                 p_keep_with_next = False\<rparr>]\<rparr>))"
proof -
  have hm: "heading_match (strip line) = None"
    using assms by (simp add: heading_match_def)
  have st: "\<not> startswith (strip line) ''|''" "\<not> startswith (strip line) ''- ''"
      "strip line \<noteq> ''---''"
    using assms by (simp_all add: startswith_def)
  have a: "header_block_line d line = Inr d"
    using assms by (simp add: header_block_line_def)
  have b: "add_job_block_to_doc d (before @ line # after) = add_job_block_to_doc d (before @ after)"
    using assms by (simp add: add_job_block_to_doc_def blank_line_in_job_block)
  have c: "step st line nxt = Inr (st\<lparr>current_job_block := current_job_block st @ [line]\<rparr>)"
    if "in_employment st"
    using that hm st by (simp add: step_def try_process_heading_def)
  have e: "step st line nxt =
              Inr (st\<lparr>doc := doc st @
                     [Paragraph \<lparr>p_style = None, p_alignment = None,
                                 p_runs = (if line = [] then [] else [PlainText line]),
                                 p_keep_with_next = False\<rparr>]\<rparr>)"
    if "\<not> in_employment st \<and> accepted line"
    using that hm st blank_line_spans [OF assms]
    by (simp add: step_def try_process_heading_def formatted_paragraph_accepted plain_run_def)
  from a b c e show ?thesis by blast
qed

text \<open>
  C6 as stated fails in the main loop: the empty line between two paragraphs is a node of
  the document, an empty paragraph; and a blank line made of the control character that
  counts as whitespace is neither skipped nor rendered, since the library refuses it.
\<close>

theorem blank_line_paragraph_counterexample:
  "render_body [''---'', ''Summary'', '''', ''More''] =
     Inr [HorizontalLine,
          Paragraph \<lparr>p_style = None, p_alignment = None,
                     p_runs = [PlainText ''Summary''], p_keep_with_next = False\<rparr>,
          Paragraph \<lparr>p_style = None, p_alignment = None,
                     p_runs = [], p_keep_with_next = False\<rparr>,
          Paragraph \<lparr>p_style = None, p_alignment = None,
                     p_runs = [PlainText ''More''], p_keep_with_next = False\<rparr>]
   \<and> strip [CHR 0x1F] = []
   \<and> render_body [''---'', ''Summary'', [CHR 0x1F], ''More''] = Inl ValueError"
  by code_simp

theorem blank_line_handling_witness:
  "header_block_line [] [CHR 0xA0] = Inr []
   \<and> add_job_block_to_doc [] ([''Job A''] @ [CHR 0xA0] # [''- x'']) =
       add_job_block_to_doc [] ([''Job A''] @ [''- x''])
   \<and> step \<lparr>doc = [], in_employment = False, current_job_block = [], table_lines = []\<rparr>
        [CHR 0xA0] None =
       Inr \<lparr>doc = [Paragraph \<lparr>p_style = None, p_alignment = None,
                                p_runs = [PlainText [CHR 0xA0]], p_keep_with_next = False\<rparr>],
            in_employment = False, current_job_block = [], table_lines = []\<rparr>"
proof -
  have s: "strip [CHR 0xA0] = []" by code_simp
  have a: "accepted [CHR 0xA0]" by code_simp
  from blank_line_handling [OF s, of "[]" "[''Job A'']" "[''- x'']"
      "\<lparr>doc = [], in_employment = False, current_job_block = [], table_lines = []\<rparr>" None] a
  show ?thesis by simp
qed

section \<open>Properties of the table flush\<close>















section \<open>Completion of a run\<close>

text \<open>
  C7. A table whose data line has more cells than its header line ends the run in an
  error: the row has as many cells as the header line, and the loop over the cells of the
  data line indexes past its end.
\<close>

theorem ragged_table_raises:
  "render ''# Name\<newline>---\<newline>| A |\<newline>|---|\<newline>| x | y |'' ''Jane'' = Inl IndexError"
  by code_simp

section \<open>Files read and written by the conversion\<close>









end
